theory Spec2Isabelle
  imports Complex_Main "HOL-Library.Multiset"
begin

section \<open>GPS route optimizer: the optimisation core of gps_route_optimizer.py\<close>

text \<open>
  The embedding follows \<^verbatim>\<open>src/gps_route_optimizer.py\<close> function by function.
  Python floats are modelled by the real numbers: \<open>+\<close>, \<open>*\<close>, \<open>sin\<close>, \<open>cos\<close>,
  \<open>sqrt\<close> and \<open>arcsin\<close> are exact, so rounding, overflow and underflow of IEEE
  doubles are outside the model. \<open>float('inf')\<close>, the start value of the running
  minimum of the exhaustive search, is \<open>None\<close> of type \<open>real option\<close>.

  The theorems about the search strategies and the dispatcher use of this arithmetic
  only that \<open><\<close> is a strict linear order and that the distance of a coordinate to itself
  is 0. None of them rests on the associativity or commutativity of the sum: such laws
  hold of the real numbers and not of the doubles, whose sums depend on the order of the
  terms. Exact values of \<open>sin\<close> and \<open>cos\<close> are used in two places only, which say so: the
  range of \<open>a\<close> in \<open>haversine_distance\<close> and the pair of coordinates at distance 0.
\<close>

subsection \<open>Data model\<close>

text \<open>A coordinate is the tuple \<open>(latitude, longitude)\<close> in degrees; a route is a list.\<close>

type_synonym coordinate = "real \<times> real"

type_synonym route = "coordinate list"

text \<open>The only exception \<open>optimize_route\<close> raises itself: \<open>ValueError("Method must be ...")\<close>.\<close>

datatype error = InvalidMethod

subsection \<open>haversine_distance\<close>

text \<open>\<open>math.radians\<close>: degrees to radians.\<close>

definition radians :: "real \<Rightarrow> real" where
  "radians x = x * (pi / 180)"

text \<open>The argument of \<open>math.sqrt\<close> in the source, named \<open>a\<close> there.\<close>

definition haversine_a :: "coordinate \<Rightarrow> coordinate \<Rightarrow> real" where
  "haversine_a coord1 coord2 =
     (let lat1 = radians (fst coord1); lon1 = radians (snd coord1);
          lat2 = radians (fst coord2); lon2 = radians (snd coord2);
          dlat = lat2 - lat1;
          dlon = lon2 - lon1
      in (sin (dlat / 2))\<^sup>2 + cos lat1 * cos lat2 * (sin (dlon / 2))\<^sup>2)"

definition haversine_distance :: "coordinate \<Rightarrow> coordinate \<Rightarrow> real" where
  "haversine_distance coord1 coord2 =
     (let a = haversine_a coord1 coord2;
          c = 2 * arcsin (sqrt a);
          r = 6371
      in c * r)"

subsection \<open>calculate_total_distance\<close>

text \<open>
  \<open>for i in range(len(route))\<close>: the running total, started at \<open>0.0\<close>, gets the distance
  from \<open>route[i]\<close> to \<open>route[(i + 1) % len(route)]\<close>. The loop body does not run for the
  empty route, so the modulus is never taken by zero.
\<close>

definition calculate_total_distance :: "route \<Rightarrow> real" where
  "calculate_total_distance route =
     foldl (\<lambda>total_distance i.
              total_distance
                + haversine_distance (route ! i) (route ! ((i + 1) mod length route)))
           0 [0 ..< length route]"

subsection \<open>itertools.permutations\<close>

text \<open>
  \<open>picks xs\<close> lists, by position, each element of \<open>xs\<close> with the rest of the list.
  \<open>permutations xs\<close> is \<open>itertools.permutations(xs)\<close>: all orderings of the positions
  of \<open>xs\<close>, in lexicographic order of the positions (equal elements at different
  positions give repeated tuples, as in Python).
\<close>

fun picks :: "'a list \<Rightarrow> ('a \<times> 'a list) list" where
  "picks [] = []"
| "picks (x # xs) = (x, xs) # map (\<lambda>p. (fst p, x # snd p)) (picks xs)"

lemma picks_length: "p \<in> set (picks xs) \<Longrightarrow> length (snd p) < length xs"
  by (induction xs arbitrary: p) auto

function permutations :: "'a list \<Rightarrow> 'a list list" where
  "permutations [] = [[]]"
| "permutations (x # xs) =
     concat (map (\<lambda>p. map ((#) (fst p)) (permutations (snd p))) (picks (x # xs)))"
  by pat_completeness auto

termination
  by (relation "measure length") (auto dest: picks_length)

subsection \<open>find_shortest_route_brute_force\<close>

text \<open>
  The loop over the permutations, with its two variables \<open>shortest_distance\<close>
  (\<open>None\<close> is \<open>float('inf')\<close>, greater than every distance) and \<open>best_route\<close>.
\<close>

fun brute_force_loop ::
  "coordinate \<Rightarrow> coordinate list list \<Rightarrow> real option \<times> route \<Rightarrow> real option \<times> route" where
  "brute_force_loop first_point [] st = st"
| "brute_force_loop first_point (perm # perms) (shortest_distance, best_route) =
     (let route = first_point # perm;
          distance = calculate_total_distance route
      in if (case shortest_distance of None \<Rightarrow> True | Some s \<Rightarrow> distance < s)
         then brute_force_loop first_point perms (Some distance, route)
         else brute_force_loop first_point perms (shortest_distance, best_route))"

definition find_shortest_route_brute_force :: "coordinate list \<Rightarrow> route" where
  "find_shortest_route_brute_force coordinates =
     (if length coordinates \<le> 1 then coordinates
      else
        let first_point = hd coordinates;
            remaining_points = tl coordinates
        in snd (brute_force_loop first_point (permutations remaining_points)
                  (None, coordinates)))"

subsection \<open>find_shortest_route_nearest_neighbor\<close>

text \<open>
  \<open>min(iterable, key=...)\<close> on a non-empty iterable: \<open>min_key_loop key xs x\<close> is the
  scan of the rest \<open>xs\<close> when \<open>x\<close> is the best element so far. A later element
  replaces the best one only when its key is strictly smaller, so the first minimal
  element wins.
\<close>

fun min_key_loop :: "('a \<Rightarrow> real) \<Rightarrow> 'a list \<Rightarrow> 'a \<Rightarrow> 'a" where
  "min_key_loop key [] best = best"
| "min_key_loop key (p # ps) best =
     (if key p < key best then min_key_loop key ps p else min_key_loop key ps best)"

lemma min_key_loop_mem: "min_key_loop key xs x \<in> set (x # xs)"
  by (induction xs arbitrary: x) auto

text \<open>
  \<open>while unvisited\<close>: the nearest unvisited point to \<open>route[-1]\<close> is appended to the
  route, and \<open>unvisited.remove\<close> deletes its first occurrence.
\<close>

function nearest_neighbor_loop :: "route \<Rightarrow> coordinate list \<Rightarrow> route" where
  "nearest_neighbor_loop route [] = route"
| "nearest_neighbor_loop route (u # us) =
     (let current_point = last route;
          nearest_point = min_key_loop (\<lambda>p. haversine_distance current_point p) us u
      in nearest_neighbor_loop (route @ [nearest_point]) (remove1 nearest_point (u # us)))"
  by pat_completeness auto

termination
proof (relation "measure (\<lambda>(route, unvisited). length unvisited)")
  show "wf (measure (\<lambda>(route, unvisited). length unvisited))"
    by simp
next
  fix route :: route and u :: coordinate and us :: "coordinate list"
    and current_point nearest_point :: coordinate
  assume "nearest_point = min_key_loop (haversine_distance current_point) us u"
  then have "nearest_point \<in> set (u # us)"
    using min_key_loop_mem by metis
  then have "length (remove1 nearest_point (u # us)) < length (u # us)"
    by (simp only: length_remove1 if_True) simp
  then show "((route @ [nearest_point], remove1 nearest_point (u # us)), (route, u # us))
      \<in> measure (\<lambda>(route, unvisited). length unvisited)"
    by simp
qed

definition find_shortest_route_nearest_neighbor :: "coordinate list \<Rightarrow> route" where
  "find_shortest_route_nearest_neighbor coordinates =
     (if length coordinates \<le> 1 then coordinates
      else nearest_neighbor_loop [hd coordinates] (tl coordinates))"

subsection \<open>two_opt_improvement\<close>

text \<open>
  \<open>new_route[i:j+1] = reversed(new_route[i:j+1])\<close>, for the indices the loops produce
  (\<open>i + 2 \<le> j < len(route)\<close>).
\<close>

definition reverse_segment :: "nat \<Rightarrow> nat \<Rightarrow> 'a list \<Rightarrow> 'a list" where
  "reverse_segment i j xs = take i xs @ rev (take (j + 1 - i) (drop i xs)) @ drop (j + 1) xs"

text \<open>
  The inner loop \<open>for j in range(i + 2, len(route))\<close> over the remaining values of \<open>j\<close>:
  \<open>None\<close> when it ends without an improvement, otherwise the accepted \<open>new_route\<close>
  with its \<open>new_distance\<close> (the \<open>break\<close>).
\<close>

fun scan_j :: "route \<Rightarrow> real \<Rightarrow> nat \<Rightarrow> nat list \<Rightarrow> (route \<times> real) option" where
  "scan_j route best_distance i [] = None"
| "scan_j route best_distance i (j # js) =
     (if j = length route - 1 \<and> i = 0 then scan_j route best_distance i js
      else
        let new_route = reverse_segment i j route;
            new_distance = calculate_total_distance new_route
        in if new_distance < best_distance then Some (new_route, new_distance)
           else scan_j route best_distance i js)"

text \<open>The outer loop \<open>for i in range(len(route))\<close>, left at the first improvement.\<close>

fun scan_i :: "route \<Rightarrow> real \<Rightarrow> nat list \<Rightarrow> (route \<times> real) option" where
  "scan_i route best_distance [] = None"
| "scan_i route best_distance (i # is) =
     (case scan_j route best_distance i [i + 2 ..< length route] of
        Some found \<Rightarrow> Some found
      | None \<Rightarrow> scan_i route best_distance is)"

text \<open>
  \<open>for iteration in range(max_iterations)\<close>, with the variables \<open>route\<close>, \<open>best_route\<close>
  and \<open>best_distance\<close>; the first argument counts the iterations that are left.
\<close>

fun two_opt_loop :: "nat \<Rightarrow> route \<Rightarrow> route \<Rightarrow> real \<Rightarrow> route" where
  "two_opt_loop 0 route best_route best_distance = best_route"
| "two_opt_loop (Suc k) route best_route best_distance =
     (case scan_i route best_distance [0 ..< length route] of
        None \<Rightarrow> best_route
      | Some (new_route, new_distance) \<Rightarrow> two_opt_loop k new_route new_route new_distance)"

text \<open>\<open>range(max_iterations)\<close> is empty for a cap that is zero or negative.\<close>

definition two_opt_improvement :: "route \<Rightarrow> int \<Rightarrow> route" where
  "two_opt_improvement route max_iterations =
     two_opt_loop (nat max_iterations) route route (calculate_total_distance route)"

definition find_shortest_route_2opt :: "coordinate list \<Rightarrow> route" where
  "find_shortest_route_2opt coordinates =
     (let initial_route = find_shortest_route_nearest_neighbor coordinates;
          optimized_route = two_opt_improvement initial_route 1000
      in optimized_route)"

subsection \<open>optimize_route\<close>

definition optimize_route :: "coordinate list \<Rightarrow> string \<Rightarrow> error + route \<times> real" where
  "optimize_route coordinates method_arg =
     (if coordinates = [] then Inr ([], 0)
      else if length coordinates = 1 then Inr (coordinates, 0)
      else
        let method_name =
              (if method_arg = ''auto''
               then (if length coordinates \<le> 8 then ''brute_force'' else ''2opt'')
               else method_arg)
        in if method_name = ''brute_force''
           then (let route = find_shortest_route_brute_force coordinates
                 in Inr (route, calculate_total_distance route))
           else if method_name = ''nearest_neighbor''
           then (let route = find_shortest_route_nearest_neighbor coordinates
                 in Inr (route, calculate_total_distance route))
           else if method_name = ''2opt''
           then (let route = find_shortest_route_2opt coordinates
                 in Inr (route, calculate_total_distance route))
           else Inl InvalidMethod)"

text \<open>
  The same function with a log of the work it has done when it returns or raises: one
  entry for each call of a search strategy (lines 199, 201 and 203 of the source) and of
  \<open>calculate_total_distance\<close> (line 207), in the order of the calls. The tests on
  \<open>coordinates\<close> and on \<open>method\<close> call none of them.
\<close>

datatype call =
  Call_brute_force | Call_nearest_neighbor | Call_2opt | Call_calculate_total_distance

definition optimize_route_calls ::
  "coordinate list \<Rightarrow> string \<Rightarrow> call list \<times> (error + route \<times> real)" where
  "optimize_route_calls coordinates method_arg =
     (if coordinates = [] then ([], Inr ([], 0))
      else if length coordinates = 1 then ([], Inr (coordinates, 0))
      else
        let method_name =
              (if method_arg = ''auto''
               then (if length coordinates \<le> 8 then ''brute_force'' else ''2opt'')
               else method_arg)
        in if method_name = ''brute_force''
           then (let route = find_shortest_route_brute_force coordinates
                 in ([Call_brute_force, Call_calculate_total_distance],
                     Inr (route, calculate_total_distance route)))
           else if method_name = ''nearest_neighbor''
           then (let route = find_shortest_route_nearest_neighbor coordinates
                 in ([Call_nearest_neighbor, Call_calculate_total_distance],
                     Inr (route, calculate_total_distance route)))
           else if method_name = ''2opt''
           then (let route = find_shortest_route_2opt coordinates
                 in ([Call_2opt, Call_calculate_total_distance],
                     Inr (route, calculate_total_distance route)))
           else ([], Inl InvalidMethod))"

text \<open>The method identifiers the docstring and the command line accept.\<close>

definition valid_methods :: "string list" where
  "valid_methods = [''auto'', ''brute_force'', ''nearest_neighbor'', ''2opt'']"

text \<open>The validity the coordinate reader enforces: the invariant of a coordinate.\<close>

definition valid_coordinate :: "coordinate \<Rightarrow> bool" where
  "valid_coordinate c \<longleftrightarrow> -90 \<le> fst c \<and> fst c \<le> 90 \<and> -180 \<le> snd c \<and> snd c \<le> 180"

section \<open>Properties of the distance functions\<close>

subsection \<open>haversine_distance\<close>

lemma haversine_a_self: "haversine_a a a = 0"
  by (simp add: haversine_a_def)

lemma haversine_distance_self: "haversine_distance a a = 0"
  by (simp add: haversine_distance_def haversine_a_self)

text \<open>
  \<open>math.sqrt\<close> raises on a negative argument and \<open>math.asin\<close> on an argument outside
  \<open>[-1, 1]\<close>. In exact arithmetic the value \<open>a\<close> lies between 0 and 1 for every pair of
  coordinates (\<open>haversine_a_range\<close>), so the model of \<open>haversine_distance\<close> has no error
  branch for the two calls.
\<close>

lemma sin_sq_half: "(sin ((x::real) / 2))\<^sup>2 = (1 - cos x) / 2"
  using cos_double_sin [of "x / 2"] by simp

lemma cos_product: "cos (x::real) * cos y = (cos (x - y) + cos (x + y)) / 2"
  by (simp add: cos_add cos_diff)

lemma sin_sq_bounds: "0 \<le> (sin (x::real))\<^sup>2 \<and> (sin x)\<^sup>2 \<le> 1"
proof -
  have "(sin x)\<^sup>2 + (cos x)\<^sup>2 = 1"
    by simp
  moreover have "0 \<le> (cos x)\<^sup>2" and "0 \<le> (sin x)\<^sup>2"
    by simp_all
  ultimately show ?thesis
    by linarith
qed

lemma haversine_a_range: "0 \<le> haversine_a a b \<and> haversine_a a b \<le> 1"
proof -
  define p where "p = radians (fst a)"
  define q where "q = radians (fst b)"
  define h1 where "h1 = (sin ((q - p) / 2))\<^sup>2"
  define h2 where "h2 = (sin ((radians (snd b) - radians (snd a)) / 2))\<^sup>2"
  define c where "c = cos p * cos q"
  have a: "haversine_a a b = h1 + c * h2"
    by (simp add: haversine_a_def Let_def h1_def h2_def c_def p_def q_def)
  have h1: "h1 = (1 - cos (q - p)) / 2"
    unfolding h1_def by (rule sin_sq_half)
  have h2: "0 \<le> h2" "h2 \<le> 1"
    unfolding h2_def using sin_sq_bounds by blast+
  have h1r: "0 \<le> h1" "h1 \<le> 1"
    unfolding h1_def using sin_sq_bounds by blast+
  have c: "c = (cos (q - p) + cos (p + q)) / 2"
    unfolding c_def using cos_product [of p q] by (simp add: cos_diff cos_add)
  have clo: "- h1 \<le> c"
    unfolding c h1 using cos_ge_minus_one [of "p + q"] by argo
  have chi: "c \<le> 1 - h1"
    unfolding c h1 using cos_le_one [of "p + q"] by argo
  have "- h1 * h2 \<le> c * h2"
    using clo h2(1) by (intro mult_right_mono) auto
  moreover have "0 \<le> h1 * (1 - h2)"
    using h1r h2 by simp
  ultimately have lo: "0 \<le> h1 + c * h2"
    by (simp add: algebra_simps)
  have "c * h2 \<le> (1 - h1) * h2"
    using chi h2(1) by (intro mult_right_mono) auto
  moreover have "0 \<le> (1 - h1) * (1 - h2)"
    using h1r h2 by simp
  ultimately have hi: "h1 + c * h2 \<le> 1"
    by (simp add: algebra_simps)
  show ?thesis using lo hi a by simp
qed

text \<open>
  C7 (amended). For all coordinates \<open>a\<close> and \<open>b\<close>, if \<open>a\<close> and \<open>b\<close> are equal then
  \<open>haversine_distance(a, b)\<close> is 0; in particular the distance of every coordinate to
  itself is 0. Equal coordinates are sufficient for the distance 0, not necessary.
\<close>

theorem haversine_distance_equal_zero:
  "(a = b \<longrightarrow> haversine_distance a b = 0) \<and> haversine_distance a a = 0"
  by (simp add: haversine_distance_self)

text \<open>A valid coordinate, taken twice.\<close>

theorem haversine_distance_equal_zero_witness:
  "valid_coordinate (48, 11) \<and> haversine_distance (48, 11) (48, 11) = 0"
proof -
  have "valid_coordinate (48, 11)"
    by (simp add: valid_coordinate_def)
  moreover have "haversine_distance (48, 11) (48, 11) = 0"
    using haversine_distance_equal_zero [of "(48, 11)" "(48, 11)"] by simp
  ultimately show ?thesis
    by (rule conjI)
qed

text \<open>
  C7 as stated fails: the valid coordinates \<open>(90, 0)\<close> and \<open>(90, 1e-200)\<close> are not equal,
  and their distance is 0. Here \<open>a\<close> is \<open>0 + cos lat1 * cos lat2 * sin(dlon/2)**2\<close>: in
  exact arithmetic \<open>cos lat1\<close> is 0 at the pole, and in the doubles of the program the
  square of \<open>sin(dlon/2)\<close>, about \<open>8.7e-203\<close>, underflows to \<open>0.0\<close>; either way \<open>a\<close> is 0
  and so is the distance.
\<close>

theorem haversine_zero_distinct_counterexample:
  "valid_coordinate (90, 0) \<and> valid_coordinate (90, 1 / 10 ^ 200)
   \<and> (90, 0) \<noteq> ((90, 1 / 10 ^ 200) :: coordinate)
   \<and> haversine_distance (90, 0) (90, 1 / 10 ^ 200) = 0"
proof -
  have "cos (radians 90) = 0"
    by (simp add: radians_def)
  then have "haversine_a (90, 0) (90, 1 / 10 ^ 200) = 0"
    by (simp add: haversine_a_def Let_def)
  then have "haversine_distance (90, 0) (90, 1 / 10 ^ 200) = 0"
    by (simp add: haversine_distance_def)
  moreover have "(90, 0) \<noteq> ((90, 1 / 10 ^ 200) :: coordinate)"
    by simp
  moreover have "valid_coordinate (90, 0)" "valid_coordinate (90, 1 / 10 ^ 200)"
    by (simp_all add: valid_coordinate_def)
  ultimately show ?thesis
    by blast
qed

subsection \<open>calculate_total_distance\<close>

text \<open>
  The loop does not run for the empty route, and for a route of one coordinate it adds
  the distance of that coordinate to itself to \<open>0.0\<close>.
\<close>

lemma calculate_total_distance_short:
  "length route \<le> 1 \<Longrightarrow> calculate_total_distance route = 0"
proof (cases route)
  case Nil
  then show ?thesis
    by (simp add: calculate_total_distance_def)
next
  case (Cons p ps)
  assume "length route \<le> 1"
  with Cons have "route = [p]"
    by simp
  then show ?thesis
    by (simp add: calculate_total_distance_def haversine_distance_self)
qed

subsection \<open>itertools.permutations enumerates the orderings\<close>

lemma picks_mset: "p \<in> set (picks xs) \<Longrightarrow> mset xs = add_mset (fst p) (mset (snd p))"
  by (induction xs arbitrary: p) auto

lemma picks_complete: "y \<in> set xs \<Longrightarrow> \<exists>ys. (y, ys) \<in> set (picks xs)"
proof (induction xs)
  case Nil
  then show ?case by simp
next
  case (Cons x xs)
  show ?case
  proof (cases "y = x")
    case True
    then show ?thesis by auto
  next
    case False
    with Cons obtain ys where "(y, ys) \<in> set (picks xs)"
      by auto
    then have "(y, x # ys) \<in> set (picks (x # xs))"
      by force
    then show ?thesis ..
  qed
qed

lemma permutations_Cons_iff:
  "ys \<in> set (permutations (x # xs)) \<longleftrightarrow>
     (\<exists>p\<in>set (picks (x # xs)). \<exists>zs\<in>set (permutations (snd p)). ys = fst p # zs)"
  by (auto simp del: picks.simps)

lemma permutations_sound: "ys \<in> set (permutations xs) \<Longrightarrow> mset ys = mset xs"
proof (induction xs arbitrary: ys rule: permutations.induct)
  case 1
  then show ?case by simp
next
  case (2 x xs)
  from "2.prems" obtain p zs where p: "p \<in> set (picks (x # xs))"
    and zs: "zs \<in> set (permutations (snd p))" and ys: "ys = fst p # zs"
    unfolding permutations_Cons_iff by blast
  from "2.IH" [OF p zs] have "mset zs = mset (snd p)" .
  with picks_mset [OF p] ys show ?case
    by simp
qed

lemma permutations_complete: "mset ys = mset xs \<Longrightarrow> ys \<in> set (permutations xs)"
proof (induction ys arbitrary: xs)
  case Nil
  then show ?case by simp
next
  case (Cons y ys)
  have "y \<in># mset (y # ys)"
    by simp
  then have "y \<in># mset xs"
    by (simp only: Cons.prems)
  then have yxs: "y \<in> set xs"
    by simp
  from picks_complete [OF yxs] obtain zs where p: "(y, zs) \<in> set (picks xs)" ..
  have "mset (y # ys) = add_mset y (mset zs)"
    using picks_mset [OF p] Cons.prems by (simp only: fst_conv snd_conv)
  then have "mset ys = mset zs"
    by simp
  then have zs: "ys \<in> set (permutations zs)"
    by (rule Cons.IH)
  from yxs obtain x xs' where xs: "xs = x # xs'"
    by (cases xs) auto
  have "\<exists>q\<in>set (picks (x # xs')). \<exists>ws\<in>set (permutations (snd q)). y # ys = fst q # ws"
  proof (intro bexI)
    show "y # ys = fst (y, zs) # ys" by simp
    show "ys \<in> set (permutations (snd (y, zs)))" using zs by simp
    show "(y, zs) \<in> set (picks (x # xs'))" using p xs by simp
  qed
  then show ?case
    unfolding xs permutations_Cons_iff .
qed

lemma set_permutations: "set (permutations xs) = {ys. mset ys = mset xs}"
  using permutations_sound permutations_complete by blast

section \<open>The search strategies\<close>

subsection \<open>Exhaustive search\<close>

lemma brute_force_loop_Some:
  assumes "brute_force_loop f perms (Some (calculate_total_distance best), best) = (sd', best')"
  shows "(best' = best \<or> best' \<in> (#) f ` set perms)
     \<and> calculate_total_distance best' \<le> calculate_total_distance best
     \<and> (\<forall>p\<in>set perms. calculate_total_distance best' \<le> calculate_total_distance (f # p))"
  using assms
proof (induction perms arbitrary: best)
  case Nil
  then show ?case by simp
next
  case (Cons perm perms)
  show ?case
  proof (cases "calculate_total_distance (f # perm) < calculate_total_distance best")
    case True
    with Cons.prems have
      "brute_force_loop f perms (Some (calculate_total_distance (f # perm)), f # perm) = (sd', best')"
      by (simp add: Let_def)
    from Cons.IH [OF this] True show ?thesis
      by auto
  next
    case False
    with Cons.prems have
      "brute_force_loop f perms (Some (calculate_total_distance best), best) = (sd', best')"
      by (simp add: Let_def)
    from Cons.IH [OF this] False show ?thesis
      by auto
  qed
qed

lemma brute_force_loop_None:
  assumes "brute_force_loop f (perm # perms) (None, best) = (sd', best')"
  shows "best' \<in> (#) f ` set (perm # perms)
     \<and> (\<forall>p\<in>set (perm # perms). calculate_total_distance best' \<le> calculate_total_distance (f # p))"
proof -
  from assms have
    "brute_force_loop f perms (Some (calculate_total_distance (f # perm)), f # perm) = (sd', best')"
    by (simp add: Let_def)
  from brute_force_loop_Some [OF this] show ?thesis
    by auto
qed

lemma permutations_not_Nil: "permutations xs \<noteq> []"
  using permutations_complete [of xs xs] by auto

lemma brute_force_fixed_first:
  "\<exists>p. find_shortest_route_brute_force (c # cs) = c # p \<and> mset p = mset cs
     \<and> (\<forall>q. mset q = mset cs \<longrightarrow>
           calculate_total_distance (c # p) \<le> calculate_total_distance (c # q))"
proof (cases cs)
  case Nil
  then show ?thesis
    by (simp add: find_shortest_route_brute_force_def)
next
  case (Cons d ds)
  obtain perm perms where perms: "permutations cs = perm # perms"
    using permutations_not_Nil [of cs] by (cases "permutations cs") auto
  obtain sd' best' where res:
    "brute_force_loop c (perm # perms) (None, c # cs) = (sd', best')"
    by (cases "brute_force_loop c (perm # perms) (None, c # cs)") auto
  have bf: "find_shortest_route_brute_force (c # cs) = best'"
    using Cons perms res by (simp add: find_shortest_route_brute_force_def)
  from brute_force_loop_None [OF res] have
    mem: "best' \<in> (#) c ` set (permutations cs)" and
    least: "\<forall>p\<in>set (permutations cs). calculate_total_distance best' \<le> calculate_total_distance (c # p)"
    unfolding perms by blast+
  from mem obtain p where p: "best' = c # p" "p \<in> set (permutations cs)"
    by blast
  have "mset p = mset cs"
    using p(2) by (rule permutations_sound)
  moreover have "\<forall>q. mset q = mset cs \<longrightarrow>
      calculate_total_distance (c # p) \<le> calculate_total_distance (c # q)"
    using least p(1) permutations_complete by blast
  ultimately show ?thesis
    using bf p(1) by blast
qed

lemma mset_brute_force: "mset (find_shortest_route_brute_force coordinates) = mset coordinates"
proof (cases coordinates)
  case Nil
  then show ?thesis
    by (simp add: find_shortest_route_brute_force_def)
next
  case (Cons c cs)
  with brute_force_fixed_first [of c cs] show ?thesis
    by auto
qed

subsection \<open>Nearest neighbour and 2-opt\<close>

lemma mset_nearest_neighbor_loop:
  "mset (nearest_neighbor_loop route unvisited) = mset route + mset unvisited"
proof (induction route unvisited rule: nearest_neighbor_loop.induct)
  case (1 route)
  then show ?case by simp
next
  case (2 route u us)
  define nearest_point where
    "nearest_point = min_key_loop (\<lambda>p. haversine_distance (last route) p) us u"
  have mem: "nearest_point \<in> set (u # us)"
    unfolding nearest_point_def by (rule min_key_loop_mem)
  have "mset (nearest_neighbor_loop route (u # us))
      = mset (nearest_neighbor_loop (route @ [nearest_point]) (remove1 nearest_point (u # us)))"
    by (simp add: nearest_point_def Let_def)
  also have "\<dots> = mset (route @ [nearest_point]) + mset (remove1 nearest_point (u # us))"
    using "2.IH" [OF refl, of nearest_point] by (simp add: nearest_point_def)
  also have "\<dots> = mset route + add_mset nearest_point (mset (remove1 nearest_point (u # us)))"
    by simp
  also have "add_mset nearest_point (mset (remove1 nearest_point (u # us))) = mset (u # us)"
    unfolding mset_remove1 using mem by (intro insert_DiffM) simp
  finally show ?case .
qed

lemma mset_nearest_neighbor:
  "mset (find_shortest_route_nearest_neighbor coordinates) = mset coordinates"
proof (cases coordinates)
  case Nil
  then show ?thesis
    by (simp add: find_shortest_route_nearest_neighbor_def)
next
  case (Cons c cs)
  then show ?thesis
    by (simp add: find_shortest_route_nearest_neighbor_def mset_nearest_neighbor_loop)
qed

lemma mset_reverse_segment:
  assumes "i \<le> j + 1"
  shows "mset (reverse_segment i j xs) = mset xs"
proof -
  have "drop (j + 1) xs = drop (j + 1 - i) (drop i xs)"
    using assms by simp
  then have "mset (reverse_segment i j xs)
      = mset (take i xs) + (mset (take (j + 1 - i) (drop i xs)) + mset (drop (j + 1 - i) (drop i xs)))"
    by (simp add: reverse_segment_def)
  also have "\<dots> = mset (take i xs) + mset (drop i xs)"
    by (simp only: union_code append_take_drop_id)
  also have "\<dots> = mset xs"
    by (simp only: union_code append_take_drop_id)
  finally show ?thesis .
qed

lemma scan_j_Some:
  assumes "scan_j route best_distance i js = Some (new_route, new_distance)"
    and "\<forall>j\<in>set js. i \<le> j + 1"
  shows "mset new_route = mset route \<and> new_distance = calculate_total_distance new_route
     \<and> new_distance < best_distance"
  using assms
proof (induction js)
  case Nil
  then show ?case by simp
next
  case (Cons j js)
  then show ?case
    by (auto simp: Let_def mset_reverse_segment split: if_splits)
qed

lemma scan_i_Some:
  assumes "scan_i route best_distance is = Some (new_route, new_distance)"
  shows "mset new_route = mset route \<and> new_distance = calculate_total_distance new_route
     \<and> new_distance < best_distance"
  using assms
proof (induction "is")
  case Nil
  then show ?case by simp
next
  case (Cons i "is")
  show ?case
  proof (cases "scan_j route best_distance i [i + 2 ..< length route]")
    case None
    with Cons show ?thesis by simp
  next
    case (Some found)
    with Cons.prems have "scan_j route best_distance i [i + 2 ..< length route]
        = Some (new_route, new_distance)"
      by simp
    then show ?thesis
      by (rule scan_j_Some) simp
  qed
qed

lemma two_opt_loop_result:
  "mset (two_opt_loop k route route (calculate_total_distance route)) = mset route
   \<and> calculate_total_distance (two_opt_loop k route route (calculate_total_distance route))
       \<le> calculate_total_distance route"
proof (induction k arbitrary: route)
  case 0
  show ?case by simp
next
  case (Suc k)
  show ?case
  proof (cases "scan_i route (calculate_total_distance route) [0 ..< length route]")
    case None
    then show ?thesis by simp
  next
    case (Some found)
    obtain new_route new_distance where found: "found = (new_route, new_distance)"
      by (cases found)
    from scan_i_Some [OF Some [unfolded found]] have
      new: "mset new_route = mset route" "new_distance = calculate_total_distance new_route"
        "new_distance < calculate_total_distance route"
      by blast+
    have step: "two_opt_loop (Suc k) route route (calculate_total_distance route)
        = two_opt_loop k new_route new_route (calculate_total_distance new_route)"
      using Some found new(2) by simp
    from Suc.IH [of new_route] new show ?thesis
      unfolding step by auto
  qed
qed

lemma mset_two_opt_improvement:
  "mset (two_opt_improvement route max_iterations) = mset route"
  by (simp add: two_opt_improvement_def two_opt_loop_result)

lemma two_opt_improvement_le:
  "calculate_total_distance (two_opt_improvement route max_iterations)
     \<le> calculate_total_distance route"
  by (simp add: two_opt_improvement_def two_opt_loop_result)

lemma mset_2opt: "mset (find_shortest_route_2opt coordinates) = mset coordinates"
  by (simp add: find_shortest_route_2opt_def mset_two_opt_improvement mset_nearest_neighbor)

text \<open>
  C2. For every route and every iteration cap (also zero or negative), the route
  \<open>two_opt_improvement\<close> returns has a total distance that is at most the total distance
  of the route it started from.
\<close>

theorem two_opt_never_increases:
  "calculate_total_distance (two_opt_improvement route max_iterations)
     \<le> calculate_total_distance route"
  by (rule two_opt_improvement_le)

section \<open>The dispatcher optimize_route\<close>

lemma optimize_route_short:
  "length coordinates \<le> 1 \<Longrightarrow> optimize_route coordinates m = Inr (coordinates, 0)"
  by (cases coordinates) (simp_all add: optimize_route_def)

lemma optimize_route_brute_force:
  "2 \<le> length coordinates \<Longrightarrow>
   optimize_route coordinates ''brute_force''
     = Inr (find_shortest_route_brute_force coordinates,
            calculate_total_distance (find_shortest_route_brute_force coordinates))"
  by (auto simp: optimize_route_def Let_def)

lemma optimize_route_nearest_neighbor:
  "2 \<le> length coordinates \<Longrightarrow>
   optimize_route coordinates ''nearest_neighbor''
     = Inr (find_shortest_route_nearest_neighbor coordinates,
            calculate_total_distance (find_shortest_route_nearest_neighbor coordinates))"
  by (auto simp: optimize_route_def Let_def)

lemma optimize_route_2opt:
  "2 \<le> length coordinates \<Longrightarrow>
   optimize_route coordinates ''2opt''
     = Inr (find_shortest_route_2opt coordinates,
            calculate_total_distance (find_shortest_route_2opt coordinates))"
  by (auto simp: optimize_route_def Let_def)

lemma optimize_route_auto:
  "optimize_route coordinates ''auto''
     = (if length coordinates \<le> 8 then optimize_route coordinates ''brute_force''
        else optimize_route coordinates ''2opt'')"
  by (simp add: optimize_route_def Let_def)

lemma optimize_route_invalid:
  "2 \<le> length coordinates \<Longrightarrow> m \<notin> set valid_methods \<Longrightarrow>
   optimize_route coordinates m = Inl InvalidMethod"
  by (auto simp: optimize_route_def valid_methods_def Let_def)

lemma optimize_route_strategy:
  assumes "m \<in> set valid_methods"
  shows "optimize_route coordinates m = Inr (coordinates, 0) \<and> length coordinates \<le> 1
    \<or> (\<exists>route \<in> {find_shortest_route_brute_force coordinates,
          find_shortest_route_nearest_neighbor coordinates,
          find_shortest_route_2opt coordinates}.
          optimize_route coordinates m = Inr (route, calculate_total_distance route))"
proof (cases "length coordinates \<le> 1")
  case True
  then show ?thesis
    by (simp add: optimize_route_short)
next
  case False
  then have len: "2 \<le> length coordinates"
    by simp
  from assms consider "m = ''auto''" | "m = ''brute_force''" | "m = ''nearest_neighbor''"
    | "m = ''2opt''"
    by (auto simp: valid_methods_def)
  then show ?thesis
  proof cases
    case 1
    then show ?thesis
      using len by (simp add: optimize_route_auto optimize_route_brute_force optimize_route_2opt)
  next
    case 2
    then show ?thesis
      using len by (simp add: optimize_route_brute_force)
  next
    case 3
    then show ?thesis
      using len by (simp add: optimize_route_nearest_neighbor)
  next
    case 4
    then show ?thesis
      using len by (simp add: optimize_route_2opt)
  qed
qed

lemma optimize_route_calls_result:
  "snd (optimize_route_calls coordinates m) = optimize_route coordinates m"
  by (simp add: optimize_route_calls_def optimize_route_def Let_def)

lemma optimize_route_calls_invalid:
  "2 \<le> length coordinates \<Longrightarrow> m \<notin> set valid_methods \<Longrightarrow>
   optimize_route_calls coordinates m = ([], Inl InvalidMethod)"
  by (auto simp: optimize_route_calls_def valid_methods_def Let_def)

lemma optimize_route_calls_short:
  "length coordinates \<le> 1 \<Longrightarrow> optimize_route_calls coordinates m = ([], Inr (coordinates, 0))"
  by (cases coordinates) (simp_all add: optimize_route_calls_def)

text \<open>With a valid method and at least two coordinates the log is not empty.\<close>

lemma optimize_route_calls_valid:
  "2 \<le> length coordinates \<Longrightarrow> m \<in> set valid_methods \<Longrightarrow>
   fst (optimize_route_calls coordinates m) \<noteq> []"
proof -
  assume len: "2 \<le> length coordinates" and "m \<in> set valid_methods"
  then consider "m = ''auto''" | "m = ''brute_force''" | "m = ''nearest_neighbor''"
    | "m = ''2opt''"
    by (auto simp: valid_methods_def)
  then show ?thesis
  proof cases
    case 1
    with len show ?thesis
      by (cases "length coordinates \<le> 8") (auto simp: optimize_route_calls_def Let_def)
  next
    case 2
    with len show ?thesis
      by (auto simp: optimize_route_calls_def Let_def)
  next
    case 3
    with len show ?thesis
      by (auto simp: optimize_route_calls_def Let_def)
  next
    case 4
    with len show ?thesis
      by (auto simp: optimize_route_calls_def Let_def)
  qed
qed

text \<open>
  C3 (amended). For every list of at least two coordinates, \<open>optimize_route\<close> with a
  method outside \<open>auto\<close>, \<open>brute_force\<close>, \<open>nearest_neighbor\<close>, \<open>2opt\<close> fails with the
  invalid-method error, immediately and before any search work: it has called no search
  strategy and not \<open>calculate_total_distance\<close> when it raises. For an empty list and for a
  list of one coordinate the early returns come first: the call returns
  \<open>(coordinates, 0)\<close> whatever the method, also without any search work.
\<close>

theorem invalid_method_rejected:
  assumes "m \<notin> set valid_methods"
  shows "(2 \<le> length coordinates \<longrightarrow>
            optimize_route coordinates m = Inl InvalidMethod
          \<and> optimize_route_calls coordinates m = ([], Inl InvalidMethod))
       \<and> (length coordinates \<le> 1 \<longrightarrow>
            optimize_route coordinates m = Inr (coordinates, 0)
          \<and> optimize_route_calls coordinates m = ([], Inr (coordinates, 0)))"
  using assms
  by (simp add: optimize_route_invalid optimize_route_calls_invalid optimize_route_short
      optimize_route_calls_short)

text \<open>Two coordinates and the method \<open>bogus\<close>: the error, and an empty log.\<close>

theorem invalid_method_rejected_witness:
  "''bogus'' \<notin> set valid_methods
   \<and> optimize_route [(0, 0), (1, 1)] ''bogus'' = Inl InvalidMethod
   \<and> optimize_route_calls [(0, 0), (1, 1)] ''bogus'' = ([], Inl InvalidMethod)"
proof -
  have m: "''bogus'' \<notin> set valid_methods"
    by (simp add: valid_methods_def)
  from invalid_method_rejected [OF m, of "[(0, 0), (1, 1)]"] m show ?thesis
    by simp
qed

text \<open>
  C3 as stated fails on a list of one coordinate: the test \<open>len(coordinates) == 1\<close>
  returns \<open>(coordinates, 0)\<close> before the method is looked at, so \<open>bogus\<close> is accepted.
\<close>

theorem invalid_method_singleton_counterexample:
  "[(0, 0)] \<noteq> ([] :: route) \<and> ''bogus'' \<notin> set valid_methods
   \<and> optimize_route [(0, 0)] ''bogus'' = Inr ([(0, 0)], 0)
   \<and> optimize_route [(0, 0)] ''bogus'' \<noteq> Inl InvalidMethod"
  by (simp add: optimize_route_def valid_methods_def)

text \<open>
  C4. For every method \<open>m\<close> (valid or not), \<open>optimize_route([], m)\<close> is \<open>([], 0)\<close> and
  \<open>optimize_route([p], m)\<close> is \<open>([p], 0)\<close>: empty and singleton inputs are not errors.
\<close>

theorem optimize_route_empty_singleton:
  "optimize_route [] m = Inr ([], 0) \<and> optimize_route [p] m = Inr ([p], 0)"
  by (simp add: optimize_route_def)

text \<open>
  C5. For a list of at least two coordinates, method \<open>auto\<close> gives the result of
  method \<open>brute_force\<close> when there are at most 8 coordinates and the result of method
  \<open>2opt\<close> otherwise, where \<open>brute_force\<close> is the exhaustive search and \<open>2opt\<close> is the
  nearest-neighbour route improved by \<open>two_opt_improvement\<close> with the default cap 1000.
\<close>

theorem auto_dispatch:
  assumes "2 \<le> length coordinates"
  shows "optimize_route coordinates ''auto''
       = (if length coordinates \<le> 8 then optimize_route coordinates ''brute_force''
          else optimize_route coordinates ''2opt'')
     \<and> optimize_route coordinates ''brute_force''
       = Inr (find_shortest_route_brute_force coordinates,
              calculate_total_distance (find_shortest_route_brute_force coordinates))
     \<and> optimize_route coordinates ''2opt''
       = Inr (two_opt_improvement (find_shortest_route_nearest_neighbor coordinates) 1000,
              calculate_total_distance
                (two_opt_improvement (find_shortest_route_nearest_neighbor coordinates) 1000))"
  using assms optimize_route_auto [of coordinates]
  by (simp add: optimize_route_brute_force optimize_route_2opt find_shortest_route_2opt_def)

text \<open>
  Two coordinates go to the exhaustive search, nine to the 2-opt strategy.
\<close>

theorem auto_dispatch_witness:
  "optimize_route [(0, 0), (0, 1)] ''auto'' = optimize_route [(0, 0), (0, 1)] ''brute_force''
   \<and> optimize_route [(0, 0), (0, 1), (0, 2), (0, 3), (0, 4), (0, 5), (0, 6), (0, 7), (0, 8)] ''auto''
     = optimize_route [(0, 0), (0, 1), (0, 2), (0, 3), (0, 4), (0, 5), (0, 6), (0, 7), (0, 8)] ''2opt''"
proof -
  have small: "2 \<le> length [(0, 0), (0, 1) :: coordinate]"
    by simp
  have large: "2 \<le> length [(0, 0), (0, 1), (0, 2), (0, 3), (0, 4), (0, 5), (0, 6), (0, 7),
      (0, 8) :: coordinate]"
    by simp
  have "optimize_route [(0, 0), (0, 1)] ''auto'' = optimize_route [(0, 0), (0, 1)] ''brute_force''"
    using auto_dispatch [OF small] by simp
  moreover have
    "optimize_route [(0, 0), (0, 1), (0, 2), (0, 3), (0, 4), (0, 5), (0, 6), (0, 7), (0, 8)] ''auto''
     = optimize_route [(0, 0), (0, 1), (0, 2), (0, 3), (0, 4), (0, 5), (0, 6), (0, 7), (0, 8)] ''2opt''"
    using auto_dispatch [OF large] by simp
  ultimately show ?thesis
    by (rule conjI)
qed

text \<open>
  C6. For every list of coordinates and every valid method, \<open>optimize_route\<close> returns
  a route together with \<open>calculate_total_distance\<close> of that route; for the empty and the
  singleton input the returned 0 is that value.
\<close>

theorem returned_distance_is_route_total:
  assumes "m \<in> set valid_methods"
  shows "\<exists>route. optimize_route coordinates m = Inr (route, calculate_total_distance route)"
  using optimize_route_strategy [OF assms, of coordinates]
  by (auto simp: calculate_total_distance_short)

text \<open>
  Three coordinates and the method \<open>2opt\<close>.
\<close>

theorem returned_distance_is_route_total_witness:
  "\<exists>route. optimize_route [(0, 0), (0, 1), (1, 1)] ''2opt''
     = Inr (route, calculate_total_distance route)"
  by (rule returned_distance_is_route_total) (simp add: valid_methods_def)

text \<open>
  C10. For every list of coordinates and every valid method, the route \<open>optimize_route\<close>
  returns is a permutation of the input: the same coordinates with the same
  multiplicities.
\<close>

theorem optimize_route_permutation:
  assumes "m \<in> set valid_methods"
  shows "\<exists>route d. optimize_route coordinates m = Inr (route, d) \<and> mset route = mset coordinates"
  using optimize_route_strategy [OF assms, of coordinates]
  by (auto simp: mset_brute_force mset_nearest_neighbor mset_2opt)

text \<open>
  Four coordinates, one of them twice, and the method \<open>2opt\<close>.
\<close>

theorem optimize_route_permutation_witness:
  "\<exists>route d. optimize_route [(0, 0), (0, 1), (1, 1), (0, 1)] ''2opt'' = Inr (route, d)
     \<and> mset route = mset [(0, 0), (0, 1), (1, 1), (0, 1)]"
  by (rule optimize_route_permutation) (simp add: valid_methods_def)

end
